theory Spec2Isabelle
  imports Complex_Main "HOL-Library.Word"
begin

section \<open>Images, outcomes and the primitives of the host library\<close>

text \<open>
  The kernels of \<^verbatim>\<open>vpImgproc.cpp\<close> work on \<^verbatim>\<open>vpImage<unsigned char>\<close> and
  \<^verbatim>\<open>vpImage<vpRGBa>\<close>. An image is modelled by its bitmap, the samples in row-major
  order. \<^verbatim>\<open>vpImage\<close> keeps the number of samples in an \<^verbatim>\<open>unsigned int\<close>
  (\<^verbatim>\<open>getSize()\<close>, equal to \<^verbatim>\<open>getWidth()*getHeight()\<close>), so that number is the length of
  the list. A \<^verbatim>\<open>double\<close> is modelled by a real number: the model is exact wherever the
  floating-point operations of the source are exact, and it has no infinity and no NaN, so
  a division whose divisor is zero is written out as a case of its own. Where a result
  below depends on how the double operations round, they are parameters of the model.
\<close>

type_synonym uchar = "8 word"

type_synonym gray_image = "uchar list"

record vpRGBa =
  R :: uchar
  G :: uchar
  B :: uchar
  A :: uchar

type_synonym color_image = "vpRGBa list"

text \<open>
  How a call ends. \<open>Returns I\<close>: the call returned and left its buffer as \<open>I\<close>.
  \<open>Throws e I\<close>: the call was left by the exception \<open>e\<close>, with its buffer as \<open>I\<close>.
  \<open>Undefined u\<close>: the program does not determine the samples of the buffer, for the
  reason \<open>u\<close>.
\<close>

datatype vpException = badValue

datatype undefined_reason =
    UninitialisedLutEntry \<comment> \<open>a pixel selects a table entry that was never written\<close>
  | NonFiniteToInt \<comment> \<open>a NaN or an infinity is converted to \<^verbatim>\<open>int\<close>\<close>
  | EmptyMinMax \<comment> \<open>the minimum and maximum of a buffer without samples\<close>
  | OutOfRange \<comment> \<open>a buffer is read past its last sample\<close>

datatype 'img outcome = Returns 'img | Throws vpException 'img | Undefined undefined_reason

text \<open>
  A lookup table \<^verbatim>\<open>unsigned char lut[256]\<close> is a local array that the source does not
  initialise: an entry holds a value only once it has been written.
\<close>

type_synonym lut = "nat \<rightharpoonup> uchar"

text \<open>
  Modelled from the spec: \<^verbatim>\<open>vpImage<unsigned char>::performLut\<close> is declared in
  \<^verbatim>\<open>visp3/core/vpImage.h\<close>, which is not part of the sources; the spec describes it as the
  bulk operation that applies a 256-entry table to every sample.
\<close>

fun performLut :: "gray_image \<Rightarrow> lut \<Rightarrow> gray_image outcome" where
  "performLut [] t = Returns []"
| "performLut (p # ps) t =
     (case t (unat p) of
        None \<Rightarrow> Undefined UninitialisedLutEntry
      | Some v \<Rightarrow>
          (case performLut ps t of
             Returns qs \<Rightarrow> Returns (v # qs)
           | Throws e qs \<Rightarrow> Throws e (v # qs)
           | Undefined u \<Rightarrow> Undefined u))"

text \<open>
  Modelled from the spec: \<^verbatim>\<open>vpMath::round\<close> and \<^verbatim>\<open>vpMath::saturate<unsigned char>\<close> are
  declared in \<^verbatim>\<open>visp3/core/vpMath.h\<close>, which is not part of the sources. The spec's
  glossary: saturate clamps a computed value into [0,255], rounding to the nearest integer.
  The spec does not say which way a value halfway between two integers goes; no result below
  depends on it.
\<close>

definition vp_round :: "real \<Rightarrow> int" where
  "vp_round x = round x"

definition saturate :: "real \<Rightarrow> uchar" where
  "saturate v =
     (let iv = vp_round v
      in if iv < 0 then 0 else if 255 < iv then 255 else word_of_int iv)"

section \<open>Brightness adjustment\<close>

text \<open>
  \<^verbatim>\<open>vp::adjust(vpImage<unsigned char> &I, const double alpha, const double beta)\<close>:
  the loop \<^verbatim>\<open>for(unsigned int i = 0; i < 256; i++)\<close> writes every entry of the table.
\<close>

definition adjust_lut :: "real \<Rightarrow> real \<Rightarrow> lut" where
  "adjust_lut alpha beta =
     fold (\<lambda>i t. t(i \<mapsto> saturate (alpha * real i + beta))) [0..<256] Map.empty"

definition adjust :: "gray_image \<Rightarrow> real \<Rightarrow> real \<Rightarrow> gray_image outcome" where
  "adjust I alpha beta = performLut I (adjust_lut alpha beta)"

section \<open>Unsharp mask\<close>

text \<open>
  \<^verbatim>\<open>vpImageFilter::gaussianBlur\<close> belongs to the host library and is not part of the
  sources: the kernels take it as the parameter \<open>gaussianBlur\<close>, from an image and a kernel
  size to the blurred buffer of doubles.
\<close>

text \<open>
  \<^verbatim>\<open>vp::unsharpMask(vpImage<unsigned char> &I, const unsigned int size, const double weight)\<close>:
  the loop \<^verbatim>\<open>for(unsigned int cpt = 0; cpt < I.getSize(); cpt++)\<close> reads and writes
  \<^verbatim>\<open>I.bitmap[cpt]\<close> and reads \<^verbatim>\<open>I_blurred.bitmap[cpt]\<close>; a read past the last sample
  of the blurred buffer is written out as an outcome. The double operations of this loop
  are written with the real ones, which they equal at weight 0, the one weight inside the
  guard at which a result below is stated for this form.
\<close>

fun unsharpMask_loop :: "real list \<Rightarrow> real \<Rightarrow> nat list \<Rightarrow> gray_image \<Rightarrow> gray_image outcome" where
  "unsharpMask_loop I_blurred weight [] I = Returns I"
| "unsharpMask_loop I_blurred weight (cpt # cpts) I =
     (if cpt < length I_blurred then
        (let val = (real (unat (I ! cpt)) - weight * I_blurred ! cpt) / (1 - weight)
         in unsharpMask_loop I_blurred weight cpts (I[cpt := saturate val]))
      else Undefined OutOfRange)"

definition unsharpMask ::
  "(gray_image \<Rightarrow> nat \<Rightarrow> real list) \<Rightarrow> gray_image \<Rightarrow> nat \<Rightarrow> real \<Rightarrow> gray_image outcome" where
  "unsharpMask gaussianBlur I size' weight =
     (if weight < 1 \<and> weight \<ge> 0 then
        (let I_blurred = gaussianBlur I size'
         in unsharpMask_loop I_blurred weight [0..<length I] I)
      else Returns I)"

text \<open>
  Modelled from the spec: \<^verbatim>\<open>vpImageConvert::split\<close> is declared in
  \<^verbatim>\<open>visp3/core/vpImageConvert.h\<close>, which is not part of the sources; the spec describes
  it as the split of an RGBA buffer into single-channel buffers, here \<open>map R\<close>, \<open>map G\<close>,
  \<open>map B\<close> and \<open>map A\<close>.
\<close>

text \<open>
  The subtraction, the multiplication and the division of doubles round their results, so
  they are not the operations of the reals: with the weight 0.6, the pixel 9 and the blurred
  sample 14 the quotient \<^verbatim>\<open>(9 - weight*14) / (1 - weight)\<close> is a double below 1.5, where the
  real quotient is 1.5. The color form takes the three operations of the platform as the
  parameter \<open>fp\<close>; a double is a real number, and the operations map doubles to doubles.
\<close>

record double_ops =
  dsub :: "real \<Rightarrow> real \<Rightarrow> real"
  dmul :: "real \<Rightarrow> real \<Rightarrow> real"
  ddiv :: "real \<Rightarrow> real \<Rightarrow> real"

text \<open>
  \<^verbatim>\<open>vp::unsharpMask(vpImage<vpRGBa> &I, const unsigned int size, const double weight)\<close>:
  the loop writes the fields \<^verbatim>\<open>R\<close>, \<^verbatim>\<open>G\<close> and \<^verbatim>\<open>B\<close> of \<^verbatim>\<open>I.bitmap[cpt]\<close>. In
  \<^verbatim>\<open>(I.bitmap[cpt].R - weight*I_blurred_R.bitmap[cpt]) / (1 - weight)\<close> the byte and the
  \<^verbatim>\<open>1\<close> are converted to doubles exactly. The comparisons of the guard are exact.
\<close>

fun unsharpMask_RGBa_loop ::
  "double_ops \<Rightarrow> real list \<Rightarrow> real list \<Rightarrow> real list \<Rightarrow> real \<Rightarrow> nat list \<Rightarrow> color_image \<Rightarrow>
   color_image outcome" where
  "unsharpMask_RGBa_loop fp I_blurred_R I_blurred_G I_blurred_B weight [] I = Returns I"
| "unsharpMask_RGBa_loop fp I_blurred_R I_blurred_G I_blurred_B weight (cpt # cpts) I =
     (if cpt < length I_blurred_R \<and> cpt < length I_blurred_G \<and> cpt < length I_blurred_B then
        (let val_R = ddiv fp (dsub fp (real (unat (R (I ! cpt)))) (dmul fp weight (I_blurred_R ! cpt)))
                       (dsub fp 1 weight);
             val_G = ddiv fp (dsub fp (real (unat (G (I ! cpt)))) (dmul fp weight (I_blurred_G ! cpt)))
                       (dsub fp 1 weight);
             val_B = ddiv fp (dsub fp (real (unat (B (I ! cpt)))) (dmul fp weight (I_blurred_B ! cpt)))
                       (dsub fp 1 weight)
         in unsharpMask_RGBa_loop fp I_blurred_R I_blurred_G I_blurred_B weight cpts
              (I[cpt := (I ! cpt)\<lparr>R := saturate val_R, G := saturate val_G, B := saturate val_B\<rparr>]))
      else Undefined OutOfRange)"

definition unsharpMask_RGBa ::
  "double_ops \<Rightarrow> (gray_image \<Rightarrow> nat \<Rightarrow> real list) \<Rightarrow> color_image \<Rightarrow> nat \<Rightarrow> real \<Rightarrow>
   color_image outcome" where
  "unsharpMask_RGBa fp gaussianBlur I size' weight =
     (if weight < 1 \<and> weight \<ge> 0 then
        (let I_R = map R I; I_G = map G I; I_B = map B I;
             I_blurred_R = gaussianBlur I_R size';
             I_blurred_G = gaussianBlur I_G size';
             I_blurred_B = gaussianBlur I_B size'
         in unsharpMask_RGBa_loop fp I_blurred_R I_blurred_G I_blurred_B weight [0..<length I] I)
      else Returns I)"

text \<open>What the two loops store at index \<open>i\<close>.\<close>

definition sharpen :: "real \<Rightarrow> uchar \<Rightarrow> real \<Rightarrow> uchar" where
  "sharpen weight p blurred = saturate ((real (unat p) - weight * blurred) / (1 - weight))"

definition sharpen_fp :: "double_ops \<Rightarrow> real \<Rightarrow> uchar \<Rightarrow> real \<Rightarrow> uchar" where
  "sharpen_fp fp weight p blurred =
     saturate (ddiv fp (dsub fp (real (unat p)) (dmul fp weight blurred)) (dsub fp 1 weight))"

definition sharpen_RGBa :: "double_ops \<Rightarrow> real \<Rightarrow> vpRGBa \<Rightarrow> real \<Rightarrow> real \<Rightarrow> real \<Rightarrow> vpRGBa" where
  "sharpen_RGBa fp weight p bR bG bB =
     p\<lparr>R := sharpen_fp fp weight (R p) bR, G := sharpen_fp fp weight (G p) bG,
       B := sharpen_fp fp weight (B p) bB\<rparr>"

section \<open>Contrast stretch\<close>

text \<open>
  Modelled from the spec: \<^verbatim>\<open>vpImage::getMinMaxValue\<close> is declared in
  \<^verbatim>\<open>visp3/core/vpImage.h\<close>, which is not part of the sources; the spec describes it as
  the scan that, given a buffer, returns the minimum and the maximum of its samples, for
  bytes and for doubles. A buffer without samples has neither, and the model gives no result.
\<close>

definition getMinMaxValue :: "'a::linorder list \<Rightarrow> ('a \<times> 'a) option" where
  "getMinMaxValue I = (case I of [] \<Rightarrow> None | p # ps \<Rightarrow> Some (fold min ps p, fold max ps p))"

text \<open>
  \<^verbatim>\<open>vp::stretchContrast(vpImage<unsigned char> &I)\<close>. \<^verbatim>\<open>unsigned char range = max - min\<close>
  is the difference modulo 256. In \<^verbatim>\<open>255 * (x - min) / range\<close> the operands are converted
  to \<^verbatim>\<open>unsigned int\<close>; the loop keeps \<^verbatim>\<open>min <= x <= max <= 255\<close>, so the difference does
  not wrap, the product is at most 65025, and the quotient is stored in an
  \<^verbatim>\<open>unsigned char\<close>.
\<close>

definition stretchContrast_lut :: "uchar \<Rightarrow> uchar \<Rightarrow> lut" where
  "stretchContrast_lut min' max' =
     (let range' = max' - min'
      in if range' > 0 then
           fold (\<lambda>x t. t(x \<mapsto> of_nat (255 * (x - unat min') div unat range')))
             [unat min'..<unat max' + 1] Map.empty
         else Map.empty(unat min' \<mapsto> min'))"

definition stretchContrast :: "gray_image \<Rightarrow> gray_image outcome" where
  "stretchContrast I =
     (case getMinMaxValue I of
        None \<Rightarrow> Undefined EmptyMinMax
      | Some (min', max') \<Rightarrow> performLut I (stretchContrast_lut min' max'))"


section \<open>Gamma correction\<close>

text \<open>
  \<^verbatim>\<open>vp::gammaCorrection(vpImage<unsigned char> &I, const double gamma)\<close>. The exception is
  thrown before the table is built. \<^verbatim>\<open>pow\<close> is the C library's; on a base in [0,1] and a
  positive exponent it is the real power \<open>powr\<close>.
\<close>

definition gammaCorrection_lut :: "real \<Rightarrow> lut" where
  "gammaCorrection_lut inverse_gamma =
     fold (\<lambda>i t. t(i \<mapsto> saturate ((real i / 255) powr inverse_gamma * 255))) [0..<256] Map.empty"

definition gammaCorrection :: "gray_image \<Rightarrow> real \<Rightarrow> gray_image outcome" where
  "gammaCorrection I gamma =
     (if gamma > 0 then
        (let inverse_gamma = 1 / gamma
         in performLut I (gammaCorrection_lut inverse_gamma))
      else Throws badValue I)"

text \<open>
  \<^verbatim>\<open>vp::gammaCorrection(const vpImage<unsigned char> &I1, vpImage<unsigned char> &I2, const double gamma)\<close>:
  \<^verbatim>\<open>I2 = I1\<close>, then the in-place form on \<^verbatim>\<open>I2\<close>. The outcome holds the buffer \<^verbatim>\<open>I2\<close>.
  The assignment of \<^verbatim>\<open>vpImage\<close> is not part of the sources; by the spec it copies the
  input to the output, and when the output is the input the call behaves as the in-place
  form.
\<close>

definition gammaCorrection2 :: "gray_image \<Rightarrow> gray_image \<Rightarrow> real \<Rightarrow> gray_image outcome" where
  "gammaCorrection2 I1 I2 gamma = (let I2 = I1 in gammaCorrection I2 gamma)"

text \<open>
  Modelled from the spec: \<^verbatim>\<open>vpImage<vpRGBa>::performLut\<close> is not part of the sources. The
  spec gives a color operation one table per channel: in the table \<^verbatim>\<open>vpRGBa lut[256]\<close> the
  \<^verbatim>\<open>R\<close> fields are the table of the R bytes, and so on for \<^verbatim>\<open>G\<close>, \<^verbatim>\<open>B\<close> and
  \<^verbatim>\<open>A\<close>.
\<close>

type_synonym lut_RGBa = "nat \<rightharpoonup> vpRGBa"

fun performLut_RGBa :: "color_image \<Rightarrow> lut_RGBa \<Rightarrow> color_image outcome" where
  "performLut_RGBa [] t = Returns []"
| "performLut_RGBa (p # ps) t =
     (case (t (unat (R p)), t (unat (G p)), t (unat (B p)), t (unat (A p))) of
        (Some r, Some g, Some b, Some a) \<Rightarrow>
          (case performLut_RGBa ps t of
             Returns qs \<Rightarrow> Returns (\<lparr>R = R r, G = G g, B = B b, A = A a\<rparr> # qs)
           | Throws e qs \<Rightarrow> Throws e (\<lparr>R = R r, G = G g, B = B b, A = A a\<rparr> # qs)
           | Undefined u \<Rightarrow> Undefined u)
      | _ \<Rightarrow> Undefined UninitialisedLutEntry)"

text \<open>
  \<^verbatim>\<open>vp::gammaCorrection(vpImage<vpRGBa> &I, const double gamma)\<close> and
  \<^verbatim>\<open>vp::gammaCorrection(const vpImage<vpRGBa> &I1, vpImage<vpRGBa> &I2, const double gamma)\<close>.
\<close>

definition gammaCorrection_RGBa_lut :: "real \<Rightarrow> lut_RGBa" where
  "gammaCorrection_RGBa_lut inverse_gamma =
     fold (\<lambda>i t. t(i \<mapsto> \<lparr>R = saturate ((real i / 255) powr inverse_gamma * 255),
                          G = saturate ((real i / 255) powr inverse_gamma * 255),
                          B = saturate ((real i / 255) powr inverse_gamma * 255),
                          A = saturate ((real i / 255) powr inverse_gamma * 255)\<rparr>))
       [0..<256] Map.empty"

definition gammaCorrection_RGBa :: "color_image \<Rightarrow> real \<Rightarrow> color_image outcome" where
  "gammaCorrection_RGBa I gamma =
     (if gamma > 0 then
        (let inverse_gamma = 1 / gamma
         in performLut_RGBa I (gammaCorrection_RGBa_lut inverse_gamma))
      else Throws badValue I)"

definition gammaCorrection2_RGBa :: "color_image \<Rightarrow> color_image \<Rightarrow> real \<Rightarrow> color_image outcome" where
  "gammaCorrection2_RGBa I1 I2 gamma = (let I2 = I1 in gammaCorrection_RGBa I2 gamma)"

section \<open>Histogram equalization\<close>

text \<open>
  Modelled from the spec: \<^verbatim>\<open>vpHistogram\<close> (\<^verbatim>\<open>calculate\<close> and \<^verbatim>\<open>operator[]\<close>) is declared
  in \<^verbatim>\<open>visp3/core/vpHistogram.h\<close>, which is not part of the sources; the spec describes
  the histogram as the 256-entry count array over the sample values of a grayscale buffer.
\<close>

definition hist_calculate :: "gray_image \<Rightarrow> nat \<Rightarrow> nat" where
  "hist_calculate I i = length (filter (\<lambda>p. unat p = i) I)"

text \<open>
  \<^verbatim>\<open>unsigned int\<close> is 32 bits wide: sums and differences are taken modulo \<open>2 ^ 32\<close>, and
  \<^verbatim>\<open>std::numeric_limits<unsigned int>::max()\<close> is \<open>2 ^ 32 - 1\<close>.
\<close>

definition uint_add :: "nat \<Rightarrow> nat \<Rightarrow> nat" where
  "uint_add a b = (a + b) mod 2 ^ 32"

definition uint_sub :: "nat \<Rightarrow> nat \<Rightarrow> nat" where
  "uint_sub a b = (a + 2 ^ 32 - b mod 2 ^ 32) mod 2 ^ 32"

definition UINT_MAX :: nat where
  "UINT_MAX = 4294967295"

text \<open>
  \<^verbatim>\<open>vp::equalizeHistogram(vpImage<unsigned char> &I)\<close>. The locals of the loop that
  computes the cumulative distribution function; the loop writes \<^verbatim>\<open>cdf[i]\<close> before any
  read of it.
\<close>

record cdf_state =
  cdf :: "nat \<Rightarrow> nat"
  cdfMin :: nat
  cdfMax :: nat
  minValue :: nat
  maxValue :: nat

text \<open>The body of \<^verbatim>\<open>for(unsigned int i = 1; i < 256; i++)\<close>.\<close>

definition cdf_step :: "(nat \<Rightarrow> nat) \<Rightarrow> nat \<Rightarrow> cdf_state \<Rightarrow> cdf_state" where
  "cdf_step hist i s =
     (let c = uint_add (cdf s (i - 1)) (hist i);
          s = s\<lparr>cdf := (cdf s)(i := c)\<rparr>;
          s = (if c < cdfMin s \<and> c > 0 then s\<lparr>cdfMin := c, minValue := i\<rparr> else s);
          s = (if c > cdfMax s then s\<lparr>cdfMax := c, maxValue := i\<rparr> else s)
      in s)"

text \<open>
  The loop \<^verbatim>\<open>for(unsigned int x = minValue; x <= maxValue; x++)\<close> that builds the table.
  \<^verbatim>\<open>(cdf[x]-cdfMin) / (double) (nbPixels-cdfMin) * 255.0\<close> divides by the double of an
  unsigned difference; when that difference is 0 the quotient is a NaN or an infinity, which
  \<^verbatim>\<open>vpMath::round\<close> cannot convert to an \<^verbatim>\<open>int\<close>. The \<^verbatim>\<open>int\<close> is stored in an
  \<^verbatim>\<open>unsigned char\<close>.
\<close>

fun equalizeHistogram_lut :: "cdf_state \<Rightarrow> nat \<Rightarrow> nat list \<Rightarrow> lut \<Rightarrow> undefined_reason + lut" where
  "equalizeHistogram_lut s nbPixels [] t = Inr t"
| "equalizeHistogram_lut s nbPixels (x # xs) t =
     (if uint_sub nbPixels (cdfMin s) = 0 then Inl NonFiniteToInt
      else equalizeHistogram_lut s nbPixels xs
             (t(x \<mapsto> word_of_int (vp_round
                   (real (uint_sub (cdf s x) (cdfMin s)) / real (uint_sub nbPixels (cdfMin s)) * 255)))))"

definition equalizeHistogram :: "gray_image \<Rightarrow> gray_image outcome" where
  "equalizeHistogram I =
     (if length I = 0 then Returns I
      else
        (let hist = hist_calculate I;
             s = \<lparr>cdf = (\<lambda>_. 0)(0 := hist 0), cdfMin = UINT_MAX, cdfMax = 0,
                  minValue = UINT_MAX, maxValue = 0\<rparr>;
             s = fold (cdf_step hist) [1..<256] s;
             nbPixels = length I
         in case equalizeHistogram_lut s nbPixels [minValue s..<maxValue s + 1] Map.empty of
              Inl u \<Rightarrow> Undefined u
            | Inr t \<Rightarrow> performLut I t))"

text \<open>
  \<^verbatim>\<open>vp::equalizeHistogram(const vpImage<unsigned char> &I1, vpImage<unsigned char> &I2)\<close>:
  \<^verbatim>\<open>I2 = I1\<close>, a copy as in the two-buffer form of the gamma correction, then the
  in-place form on \<^verbatim>\<open>I2\<close>.
\<close>

definition equalizeHistogram2 :: "gray_image \<Rightarrow> gray_image \<Rightarrow> gray_image outcome" where
  "equalizeHistogram2 I1 I2 = (let I2 = I1 in equalizeHistogram I2)"

text \<open>
  Names for what the loops compute: the number of pixels whose value is at most \<open>k\<close>, the
  locals after the iterations \<open>1, \<dots>, k\<close> of the first loop, and the byte that the second
  loop stores at index \<open>x\<close>.
\<close>

definition count_le :: "gray_image \<Rightarrow> nat \<Rightarrow> nat" where
  "count_le I k = length (filter (\<lambda>p. unat p \<le> k) I)"

definition cdf_loop :: "gray_image \<Rightarrow> nat \<Rightarrow> cdf_state" where
  "cdf_loop I k =
     fold (cdf_step (hist_calculate I)) [1..<Suc k]
       \<lparr>cdf = (\<lambda>_. 0)(0 := hist_calculate I 0), cdfMin = UINT_MAX, cdfMax = 0,
        minValue = UINT_MAX, maxValue = 0\<rparr>"

definition equalize_entry :: "cdf_state \<Rightarrow> nat \<Rightarrow> nat \<Rightarrow> uchar" where
  "equalize_entry s nbPixels x =
     word_of_int (vp_round
       (real (uint_sub (cdf s x) (cdfMin s)) / real (uint_sub nbPixels (cdfMin s)) * 255))"

text \<open>
  \<^verbatim>\<open>vp::equalizeHistogram(vpImage<vpRGBa> &I, const bool useHSV)\<close>. Without \<^verbatim>\<open>useHSV\<close>
  the image is split in four planes, the two-buffer form is called on \<^verbatim>\<open>pR\<close>, \<^verbatim>\<open>pG\<close>
  and \<^verbatim>\<open>pB\<close>, each as input and output, and the loop
  \<^verbatim>\<open>while(ptrCurrent != ptrEnd)\<close> writes the four bytes of pixel \<^verbatim>\<open>cpt\<close> from
  \<^verbatim>\<open>pR\<close>, \<^verbatim>\<open>pG\<close>, \<^verbatim>\<open>pB\<close> and \<^verbatim>\<open>pa\<close>. With \<^verbatim>\<open>useHSV\<close> the byte forms of
  the two conversions of the host library are called, the parameters \<open>RGBaToHSV\<close> and
  \<open>HSVToRGBa\<close>.
\<close>

definition equalizeHistogram_RGBa ::
  "(color_image \<Rightarrow> gray_image \<times> gray_image \<times> gray_image) \<Rightarrow>
   (gray_image \<Rightarrow> gray_image \<Rightarrow> gray_image \<Rightarrow> color_image \<Rightarrow> color_image) \<Rightarrow>
   color_image \<Rightarrow> bool \<Rightarrow> color_image outcome" where
  "equalizeHistogram_RGBa RGBaToHSV HSVToRGBa I useHSV =
     (if length I = 0 then Returns I
      else if \<not> useHSV then
        (let pR = map R I; pG = map G I; pB = map B I; pa = map A I
         in case equalizeHistogram2 pR pR of
              Returns pR \<Rightarrow>
                (case equalizeHistogram2 pG pG of
                   Returns pG \<Rightarrow>
                     (case equalizeHistogram2 pB pB of
                        Returns pB \<Rightarrow>
                          (let size' = length I
                           in Returns (map (\<lambda>cpt. \<lparr>R = pR ! cpt, G = pG ! cpt,
                                                    B = pB ! cpt, A = pa ! cpt\<rparr>) [0..<size']))
                      | Throws e _ \<Rightarrow> Throws e I
                      | Undefined u \<Rightarrow> Undefined u)
                 | Throws e _ \<Rightarrow> Throws e I
                 | Undefined u \<Rightarrow> Undefined u)
            | Throws e _ \<Rightarrow> Throws e I
            | Undefined u \<Rightarrow> Undefined u)
      else
        (case RGBaToHSV I of (hue, saturation, value) \<Rightarrow>
           (case equalizeHistogram value of
              Returns value \<Rightarrow> Returns (HSVToRGBa hue saturation value I)
            | Throws e _ \<Rightarrow> Throws e I
            | Undefined u \<Rightarrow> Undefined u)))"

section \<open>Properties of the primitives\<close>

lemma fold_lut_upd:
  "fold (\<lambda>i t. t(i \<mapsto> f i)) [a..<b] t0 = (\<lambda>x. if a \<le> x \<and> x < b then Some (f x) else t0 x)"
proof (induction b)
  case 0
  then show ?case by simp
next
  case (Suc b)
  show ?case
  proof (cases "a \<le> b")
    case True
    then show ?thesis using Suc by (auto simp: fun_eq_iff)
  next
    case False
    then show ?thesis by (auto simp: fun_eq_iff)
  qed
qed

lemma performLut_map:
  "(\<And>p. p \<in> set I \<Longrightarrow> t (unat p) = Some (f p)) \<Longrightarrow> performLut I t = Returns (map f I)"
  by (induction I) auto

lemma unat_uchar_less: "unat (p :: uchar) < 256"
  using unsigned_less [of p] by simp

lemma saturate_of_nat: "n < 256 \<Longrightarrow> saturate (real n) = (of_nat n :: uchar)"
  by (simp add: saturate_def vp_round_def)

lemma saturate_unsigned: "saturate (unsigned p) = (p :: uchar)"
proof -
  have "saturate (real (unat p)) = of_nat (unat p)"
    by (rule saturate_of_nat) (rule unat_uchar_less)
  then show ?thesis by simp
qed

section \<open>Brightness adjustment: identity\<close>

text \<open>
  C9. For every grayscale image \<open>I\<close>, \<open>adjust I 1 0\<close> (factor 1, offset 0) returns and leaves
  every pixel as it was.
\<close>

theorem adjust_identity: "adjust I 1 0 = Returns I"
proof -
  have "performLut I (adjust_lut 1 0) = Returns (map (\<lambda>p. p) I)"
  proof (rule performLut_map)
    fix p :: uchar
    show "adjust_lut 1 0 (unat p) = Some p"
      using unat_uchar_less [of p]
      by (simp add: adjust_lut_def fold_lut_upd saturate_unsigned)
  qed
  then show ?thesis by (simp add: adjust_def)
qed

theorem adjust_identity_witness: "adjust [0, 7, 128, 255] 1 0 = Returns [0, 7, 128, 255]"
  using adjust_identity [of "[0, 7, 128, 255]"] by simp

section \<open>Unsharp mask: the loops in closed form\<close>

lemma map_upd_outside:
  "n \<le> k \<Longrightarrow> map (\<lambda>i. if k \<le> i \<and> i < n then f i else I ! i) [0..<length I] = I"
proof -
  assume "n \<le> k"
  then have "(\<lambda>i. if k \<le> i \<and> i < n then f i else I ! i) = (\<lambda>i. I ! i)"
    by (auto simp: fun_eq_iff)
  then show ?thesis by (simp add: map_nth)
qed

lemma unsharpMask_loop_range:
  "n \<le> length I \<Longrightarrow> n \<le> length b \<Longrightarrow>
   unsharpMask_loop b w [k..<n] I =
     Returns (map (\<lambda>i. if k \<le> i \<and> i < n then sharpen w (I ! i) (b ! i) else I ! i) [0..<length I])"
proof (induction "n - k" arbitrary: k I)
  case 0
  then have nk: "n \<le> k" by simp
  then have e: "[k..<n] = []" by simp
  show ?case unfolding e by (simp add: map_upd_outside [OF nk])
next
  case (Suc d)
  then have kn: "k < n" and d: "d = n - Suc k" by simp_all
  let ?I' = "I[k := sharpen w (I ! k) (b ! k)]"
  have "unsharpMask_loop b w [k..<n] I = unsharpMask_loop b w [Suc k..<n] ?I'"
    using kn Suc.prems by (simp add: upt_conv_Cons sharpen_def)
  also have "\<dots> = Returns (map (\<lambda>i. if Suc k \<le> i \<and> i < n then sharpen w (?I' ! i) (b ! i) else ?I' ! i)
                        [0..<length ?I'])"
    using Suc.hyps(1) [OF d] Suc.prems by simp
  also have "\<dots> = Returns (map (\<lambda>i. if k \<le> i \<and> i < n then sharpen w (I ! i) (b ! i) else I ! i)
                        [0..<length I])"
    using kn Suc.prems by (auto simp: nth_list_update)
  finally show ?case .
qed

lemma unsharpMask_RGBa_loop_range:
  "n \<le> length I \<Longrightarrow> n \<le> length bR \<Longrightarrow> n \<le> length bG \<Longrightarrow> n \<le> length bB \<Longrightarrow>
   unsharpMask_RGBa_loop fp bR bG bB w [k..<n] I =
     Returns (map (\<lambda>i. if k \<le> i \<and> i < n then sharpen_RGBa fp w (I ! i) (bR ! i) (bG ! i) (bB ! i)
                         else I ! i) [0..<length I])"
proof (induction "n - k" arbitrary: k I)
  case 0
  then have nk: "n \<le> k" by simp
  then have e: "[k..<n] = []" by simp
  show ?case unfolding e by (simp add: map_upd_outside [OF nk])
next
  case (Suc d)
  then have kn: "k < n" and d: "d = n - Suc k" by simp_all
  let ?I' = "I[k := sharpen_RGBa fp w (I ! k) (bR ! k) (bG ! k) (bB ! k)]"
  have "unsharpMask_RGBa_loop fp bR bG bB w [k..<n] I = unsharpMask_RGBa_loop fp bR bG bB w [Suc k..<n] ?I'"
    using kn Suc.prems by (simp add: upt_conv_Cons sharpen_fp_def sharpen_RGBa_def)
  also have "\<dots> = Returns (map (\<lambda>i. if Suc k \<le> i \<and> i < n
                                then sharpen_RGBa fp w (?I' ! i) (bR ! i) (bG ! i) (bB ! i) else ?I' ! i)
                        [0..<length ?I'])"
    using Suc.hyps(1) [OF d] Suc.prems by simp
  also have "\<dots> = Returns (map (\<lambda>i. if k \<le> i \<and> i < n
                                then sharpen_RGBa fp w (I ! i) (bR ! i) (bG ! i) (bB ! i) else I ! i)
                        [0..<length I])"
    using kn Suc.prems by (auto simp: nth_list_update)
  finally show ?case .
qed

lemma unsharpMask_closed:
  assumes "0 \<le> weight" and "weight < 1" and "length (gaussianBlur I size') = length I"
  shows "unsharpMask gaussianBlur I size' weight =
           Returns (map (\<lambda>i. sharpen weight (I ! i) (gaussianBlur I size' ! i)) [0..<length I])"
  using assms unsharpMask_loop_range [of "length I" I "gaussianBlur I size'" weight 0]
  by (simp add: unsharpMask_def)

lemma unsharpMask_RGBa_closed:
  assumes "0 \<le> weight" and "weight < 1"
    and "length (gaussianBlur (map R I) size') = length I"
    and "length (gaussianBlur (map G I) size') = length I"
    and "length (gaussianBlur (map B I) size') = length I"
  shows "unsharpMask_RGBa fp gaussianBlur I size' weight =
           Returns (map (\<lambda>i. sharpen_RGBa fp weight (I ! i) (gaussianBlur (map R I) size' ! i)
                                (gaussianBlur (map G I) size' ! i) (gaussianBlur (map B I) size' ! i))
                      [0..<length I])"
  using assms
    unsharpMask_RGBa_loop_range [of "length I" I "gaussianBlur (map R I) size'"
      "gaussianBlur (map G I) size'" "gaussianBlur (map B I) size'" fp weight 0]
  by (simp add: unsharpMask_RGBa_def)

lemma sharpen_weight_0: "sharpen 0 p blurred = p"
  by (simp add: sharpen_def saturate_unsigned)

section \<open>Unsharp mask: weight outside the range\<close>

text \<open>
  C6. For every image, grayscale or color, every kernel size and every weight \<open>w\<close> with
  \<open>w < 0\<close> or \<open>1 \<le> w\<close>, the call returns (nothing is thrown) and leaves the image as it was.
\<close>

theorem unsharpMask_weight_outside:
  "weight < 0 \<or> 1 \<le> weight \<Longrightarrow>
   unsharpMask gaussianBlur I size' weight = Returns I \<and>
   unsharpMask_RGBa fp gaussianBlur J size' weight = Returns J"
  by (auto simp: unsharpMask_def unsharpMask_RGBa_def)

theorem unsharpMask_weight_outside_witness:
  "unsharpMask (\<lambda>I n. map (\<lambda>p. real (unat p)) I) [1, 2, 3] 3 1 = Returns [1, 2, 3] \<and>
   unsharpMask_RGBa \<lparr>dsub = (-), dmul = (*), ddiv = (/)\<rparr> (\<lambda>I n. map (\<lambda>p. real (unat p)) I)
     [\<lparr>R = 1, G = 2, B = 3, A = 4\<rparr>] 3 1
     = Returns [\<lparr>R = 1, G = 2, B = 3, A = 4\<rparr>]"
  using unsharpMask_weight_outside [of 1 "\<lambda>I n. map (\<lambda>p. real (unat p)) I" "[1, 2, 3]" 3
      "\<lparr>dsub = (-), dmul = (*), ddiv = (/)\<rparr>" "[\<lparr>R = 1, G = 2, B = 3, A = 4\<rparr>]"]
  by simp

section \<open>Unsharp mask: weight 0\<close>

text \<open>
  C10. For every grayscale image and every kernel size, with a blurred buffer of the
  dimensions of the image, the call with weight 0 returns and leaves the image as it was:
  each pixel is stored back as \<open>saturate ((in - 0 * blurred) / (1 - 0))\<close>, which is \<open>in\<close>.
\<close>

theorem unsharpMask_weight_zero:
  "length (gaussianBlur I size') = length I \<Longrightarrow> unsharpMask gaussianBlur I size' 0 = Returns I"
  by (simp add: unsharpMask_closed sharpen_weight_0 map_nth)

theorem unsharpMask_weight_zero_witness:
  "unsharpMask (\<lambda>I n. map (\<lambda>p. 200) I) [1, 2, 3] 5 0 = Returns [1, 2, 3]"
  using unsharpMask_weight_zero [of "\<lambda>I n. map (\<lambda>p. 200) I" "[1, 2, 3]" 5]
  by simp

section \<open>Unsharp mask on a color image: the alpha channel\<close>

text \<open>
  C7. For every color image and every weight \<open>w\<close> with \<open>0 \<le> w < 1\<close>, with blurred buffers
  of the dimensions of the image and with any double operations, the call returns an image
  whose alpha plane is the alpha plane of the input, and whose R, G and B planes hold
  \<open>saturate ((in - w * blurred) / (1 - w))\<close> computed with those double operations, each
  with the blur of its own plane. In the witness every operation is done on numbers with a
  short binary expansion, where the double operations are the real ones.
\<close>

theorem unsharpMask_RGBa_planes:
  assumes "0 \<le> weight" and "weight < 1"
    and "length (gaussianBlur (map R I) size') = length I"
    and "length (gaussianBlur (map G I) size') = length I"
    and "length (gaussianBlur (map B I) size') = length I"
  shows "\<exists>J. unsharpMask_RGBa fp gaussianBlur I size' weight = Returns J \<and>
           map A J = map A I \<and>
           map R J = map2 (\<lambda>p b. saturate (ddiv fp (dsub fp (real (unat p)) (dmul fp weight b))
                                            (dsub fp 1 weight)))
                       (map R I) (gaussianBlur (map R I) size') \<and>
           map G J = map2 (\<lambda>p b. saturate (ddiv fp (dsub fp (real (unat p)) (dmul fp weight b))
                                            (dsub fp 1 weight)))
                       (map G I) (gaussianBlur (map G I) size') \<and>
           map B J = map2 (\<lambda>p b. saturate (ddiv fp (dsub fp (real (unat p)) (dmul fp weight b))
                                            (dsub fp 1 weight)))
                       (map B I) (gaussianBlur (map B I) size')"
proof -
  let ?J = "map (\<lambda>i. sharpen_RGBa fp weight (I ! i) (gaussianBlur (map R I) size' ! i)
                  (gaussianBlur (map G I) size' ! i) (gaussianBlur (map B I) size' ! i)) [0..<length I]"
  have ret: "unsharpMask_RGBa fp gaussianBlur I size' weight = Returns ?J"
    using assms by (rule unsharpMask_RGBa_closed)
  have a: "map A ?J = map A I"
    by (intro nth_equalityI) (simp_all add: sharpen_RGBa_def)
  have r: "map R ?J = map2 (\<lambda>p b. saturate (ddiv fp (dsub fp (real (unat p)) (dmul fp weight b))
                                            (dsub fp 1 weight)))
                       (map R I) (gaussianBlur (map R I) size')"
    using assms(3) by (intro nth_equalityI) (simp_all add: sharpen_RGBa_def sharpen_fp_def)
  have g: "map G ?J = map2 (\<lambda>p b. saturate (ddiv fp (dsub fp (real (unat p)) (dmul fp weight b))
                                            (dsub fp 1 weight)))
                       (map G I) (gaussianBlur (map G I) size')"
    using assms(4) by (intro nth_equalityI) (simp_all add: sharpen_RGBa_def sharpen_fp_def)
  have b: "map B ?J = map2 (\<lambda>p b. saturate (ddiv fp (dsub fp (real (unat p)) (dmul fp weight b))
                                            (dsub fp 1 weight)))
                       (map B I) (gaussianBlur (map B I) size')"
    using assms(5) by (intro nth_equalityI) (simp_all add: sharpen_RGBa_def sharpen_fp_def)
  from ret a r g b show ?thesis by blast
qed

theorem unsharpMask_RGBa_planes_witness:
  "\<exists>J. unsharpMask_RGBa \<lparr>dsub = (-), dmul = (*), ddiv = (/)\<rparr> (\<lambda>I n. map (\<lambda>p. real (unat p) / 2) I)
          [\<lparr>R = 10, G = 20, B = 200, A = 7\<rparr>, \<lparr>R = 0, G = 4, B = 2, A = 3\<rparr>] 3 (1 / 2) = Returns J \<and>
       map A J = [7, 3] \<and> map R J = [15, 0] \<and> map G J = [30, 6] \<and> map B J = [255, 3]"
  using unsharpMask_RGBa_planes [of "1 / 2" "\<lambda>I n. map (\<lambda>p. real (unat p) / 2) I"
      "[\<lparr>R = 10, G = 20, B = 200, A = 7\<rparr>, \<lparr>R = 0, G = 4, B = 2, A = 3\<rparr>]" 3
      "\<lparr>dsub = (-), dmul = (*), ddiv = (/)\<rparr>"]
  by (simp add: saturate_def vp_round_def)

section \<open>Contrast stretch of a grayscale image\<close>

lemma getMinMaxValue_Min_Max:
  "I \<noteq> [] \<Longrightarrow> getMinMaxValue I = Some (Min (set I), Max (set I))"
proof (cases I)
  case Nil
  then show "I \<noteq> [] \<Longrightarrow> ?thesis" by simp
next
  case (Cons p ps)
  have "fold min ps p = Min (set (p # ps))" and "fold max ps p = Max (set (p # ps))"
    by (rule Min.set_eq_fold [symmetric], rule Max.set_eq_fold [symmetric])
  with Cons show ?thesis by (simp add: getMinMaxValue_def)
qed

lemma stretchContrast_lut_entry:
  fixes p mn mx :: uchar
  assumes "mn \<le> p" and "p \<le> mx"
  shows "stretchContrast_lut mn mx (unat p) =
           Some (if mn < mx then of_nat (255 * (unat p - unat mn) div (unat mx - unat mn)) else p)"
proof (cases "mn < mx")
  case True
  then have le: "mn \<le> mx" by simp
  have r: "unat (mx - mn) = unat mx - unat mn"
    using le by (simp add: unat_sub)
  have pos: "0 < mx - mn"
    using True by (simp add: word_gt_0)
  have idx: "unat mn \<le> unat p" "unat p < unat mx + 1"
    using assms by (simp_all add: word_le_nat_alt)
  show ?thesis
    using True pos idx by (simp add: stretchContrast_lut_def fold_lut_upd r)
next
  case False
  with assms have e: "mx = mn" "p = mn" by auto
  then show ?thesis by (simp add: stretchContrast_lut_def)
qed

lemma stretch_quotient_le:
  fixes p mn mx :: uchar
  assumes "p \<le> mx"
  shows "255 * (unat p - unat mn) div (unat mx - unat mn) \<le> 255"
proof -
  have "unat p - unat mn \<le> unat mx - unat mn"
    using assms by (simp add: word_le_nat_alt diff_le_mono)
  then have "255 * (unat p - unat mn) \<le> 255 * (unat mx - unat mn)" by simp
  then have "255 * (unat p - unat mn) div (unat mx - unat mn) \<le> 255 * (unat mx - unat mn) div (unat mx - unat mn)"
    by (rule div_le_mono)
  also have "\<dots> \<le> 255" by simp
  finally show ?thesis .
qed

text \<open>
  C5. For every non-empty grayscale image with minimum pixel value \<open>mn\<close> and maximum
  \<open>mx\<close>: if \<open>mn < mx\<close>, the call returns the image in which each pixel \<open>x\<close> is replaced
  by \<open>255 * (x - mn) div (mx - mn)\<close>, a quotient of naturals that fits a byte; if
  \<open>mn = mx\<close>, it returns the image as it was. The witness holds the two images of the spec:
  \<open>{10, 10, 10, 200}\<close> becomes \<open>{0, 0, 0, 255}\<close> and \<open>{77, 77, 77}\<close> stays.
\<close>

theorem stretchContrast_formula:
  assumes "I \<noteq> []" and "mn = Min (set I)" and "mx = Max (set I)"
  shows "stretchContrast I =
           Returns (map (\<lambda>x. if mn < mx
                              then of_nat (255 * (unat x - unat mn) div (unat mx - unat mn))
                              else x) I) \<and>
         (\<forall>x \<in> set I. 255 * (unat x - unat mn) div (unat mx - unat mn) < 256)"
proof
  have mm: "getMinMaxValue I = Some (mn, mx)"
    using assms by (simp add: getMinMaxValue_Min_Max)
  have "performLut I (stretchContrast_lut mn mx) =
          Returns (map (\<lambda>x. if mn < mx
                             then of_nat (255 * (unat x - unat mn) div (unat mx - unat mn))
                             else x) I)"
  proof (rule performLut_map)
    fix p assume "p \<in> set I"
    then have "mn \<le> p" and "p \<le> mx"
      using assms by simp_all
    then show "stretchContrast_lut mn mx (unat p) =
                 Some (if mn < mx then of_nat (255 * (unat p - unat mn) div (unat mx - unat mn)) else p)"
      by (rule stretchContrast_lut_entry)
  qed
  with mm show "stretchContrast I =
           Returns (map (\<lambda>x. if mn < mx
                              then of_nat (255 * (unat x - unat mn) div (unat mx - unat mn))
                              else x) I)"
    by (simp add: stretchContrast_def)
  show "\<forall>x \<in> set I. 255 * (unat x - unat mn) div (unat mx - unat mn) < 256"
  proof
    fix x assume "x \<in> set I"
    then have "x \<le> mx" using assms by simp
    then have "255 * (unat x - unat mn) div (unat mx - unat mn) \<le> 255"
      by (rule stretch_quotient_le)
    then show "255 * (unat x - unat mn) div (unat mx - unat mn) < 256" by simp
  qed
qed

theorem stretchContrast_formula_witness:
  "stretchContrast [10, 10, 10, 200] = Returns [0, 0, 0, 255] \<and>
   stretchContrast [77, 77, 77] = Returns [77, 77, 77]"
proof
  have "Min (set [10, 10, 10, 200 :: uchar]) = 10" and "Max (set [10, 10, 10, 200 :: uchar]) = 200"
    by simp_all
  then show "stretchContrast [10, 10, 10, 200] = Returns [0, 0, 0, 255]"
    using stretchContrast_formula [of "[10, 10, 10, 200]" 10 200] by simp
  have "Min (set [77, 77, 77 :: uchar]) = 77" and "Max (set [77, 77, 77 :: uchar]) = 77"
    by simp_all
  then show "stretchContrast [77, 77, 77] = Returns [77, 77, 77]"
    using stretchContrast_formula [of "[77, 77, 77]" 77 77] by simp
qed

section \<open>Gamma correction with a gamma that is not positive\<close>

text \<open>
  C2, as the code has it. For every image, grayscale or color, and every \<open>gamma \<le> 0\<close>:
  the in-place form throws \<open>badValue\<close> and leaves its argument as it was; the two-buffer
  form throws \<open>badValue\<close> after \<^verbatim>\<open>I2 = I1\<close>, so it leaves the output buffer as a copy of
  the input, to which no lookup table has been applied.
\<close>

theorem gammaCorrection_not_positive:
  "gamma \<le> 0 \<Longrightarrow>
   gammaCorrection I gamma = Throws badValue I \<and>
   gammaCorrection2 I1 I2 gamma = Throws badValue I1 \<and>
   gammaCorrection_RGBa J gamma = Throws badValue J \<and>
   gammaCorrection2_RGBa J1 J2 gamma = Throws badValue J1"
  by (simp add: gammaCorrection_def gammaCorrection2_def gammaCorrection_RGBa_def
      gammaCorrection2_RGBa_def)

theorem gammaCorrection_not_positive_witness:
  "gammaCorrection [1, 2, 3] 0 = Throws badValue [1, 2, 3] \<and>
   gammaCorrection [1, 2, 3] (- 1) = Throws badValue [1, 2, 3] \<and>
   gammaCorrection2 [1, 2, 3] [] (- 1) = Throws badValue [1, 2, 3] \<and>
   gammaCorrection_RGBa [\<lparr>R = 1, G = 2, B = 3, A = 4\<rparr>] 0 = Throws badValue [\<lparr>R = 1, G = 2, B = 3, A = 4\<rparr>] \<and>
   gammaCorrection2_RGBa [\<lparr>R = 1, G = 2, B = 3, A = 4\<rparr>] [] (- 1)
     = Throws badValue [\<lparr>R = 1, G = 2, B = 3, A = 4\<rparr>]"
  using gammaCorrection_not_positive [of 0 "[1, 2, 3]" "[1, 2, 3]" "[]"
      "[\<lparr>R = 1, G = 2, B = 3, A = 4\<rparr>]" "[\<lparr>R = 1, G = 2, B = 3, A = 4\<rparr>]" "[]"]
    gammaCorrection_not_positive [of "- 1" "[1, 2, 3]" "[1, 2, 3]" "[]"
      "[\<lparr>R = 1, G = 2, B = 3, A = 4\<rparr>]" "[\<lparr>R = 1, G = 2, B = 3, A = 4\<rparr>]" "[]"]
  by simp

text \<open>
  The claim as the spec states it fails on the two-buffer form: with \<open>gamma = 0\<close>, the
  output buffer that held the pixel 2 holds the pixel 1 when the exception leaves the call.
\<close>

theorem gammaCorrection2_output_overwritten:
  "gammaCorrection2 [1] [2] 0 = Throws badValue [1] \<and>
   gammaCorrection2 [1] [2] 0 \<noteq> Throws badValue [2]"
  by (simp add: gammaCorrection_def gammaCorrection2_def)

section \<open>Contrast stretch in HSV\<close>



section \<open>Histogram equalization: the loops in closed form\<close>

lemma count_le_0: "count_le I 0 = hist_calculate I 0"
  by (simp add: count_le_def hist_calculate_def)

lemma count_le_Suc: "count_le I (Suc k) = count_le I k + hist_calculate I (Suc k)"
  by (induction I) (auto simp: count_le_def hist_calculate_def)

lemma count_le_mono: "j \<le> k \<Longrightarrow> count_le I j \<le> count_le I k"
  by (induction I) (auto simp: count_le_def)

lemma count_le_length: "count_le I k \<le> length I"
  by (simp add: count_le_def)

lemma count_le_255: "255 \<le> k \<Longrightarrow> count_le I k = length I"
proof -
  assume k: "255 \<le> k"
  have "unat p \<le> k" for p :: uchar
    using unat_uchar_less [of p] k by simp
  then show ?thesis by (simp add: count_le_def)
qed

lemma cdf_loop_0:
  "cdf_loop I 0 = \<lparr>cdf = (\<lambda>_. 0)(0 := hist_calculate I 0), cdfMin = UINT_MAX, cdfMax = 0,
        minValue = UINT_MAX, maxValue = 0\<rparr>"
  by (simp add: cdf_loop_def)

lemma cdf_loop_Suc: "cdf_loop I (Suc k) = cdf_step (hist_calculate I) (Suc k) (cdf_loop I k)"
  by (simp add: cdf_loop_def)

lemma cdf_step_cdf:
  "cdf (cdf_step hist i s) = (cdf s)(i := uint_add (cdf s (i - 1)) (hist i))"
  by (simp add: cdf_step_def Let_def)

lemma uint_add_small: "a + b < 2 ^ 32 \<Longrightarrow> uint_add a b = a + b"
  by (simp add: uint_add_def)

lemma cdf_loop_cdf:
  assumes "length I < UINT_MAX"
  shows "j \<le> k \<Longrightarrow> cdf (cdf_loop I k) j = count_le I j"
proof (induction k arbitrary: j)
  case 0
  then show ?case by (simp add: cdf_loop_0 count_le_0)
next
  case (Suc k)
  have "count_le I (Suc k) < 2 ^ 32"
    using count_le_length [of I "Suc k"] assms by (simp add: UINT_MAX_def)
  then have "uint_add (count_le I k) (hist_calculate I (Suc k)) = count_le I (Suc k)"
    by (simp add: uint_add_small count_le_Suc)
  with Suc show ?case
    by (auto simp: cdf_loop_Suc cdf_step_cdf le_Suc_eq)
qed

lemma cdf_loop_c:
  assumes "length I < UINT_MAX"
  shows "uint_add (cdf (cdf_loop I k) (Suc k - 1)) (hist_calculate I (Suc k)) = count_le I (Suc k)"
proof -
  have "count_le I (Suc k) < 2 ^ 32"
    using count_le_length [of I "Suc k"] assms by (simp add: UINT_MAX_def)
  then show ?thesis
    using cdf_loop_cdf [OF assms, of k k] by (simp add: uint_add_small count_le_Suc)
qed

lemma cdf_loop_Suc_min:
  assumes "length I < UINT_MAX"
  shows "cdfMin (cdf_loop I (Suc k)) =
           (if count_le I (Suc k) < cdfMin (cdf_loop I k) \<and> 0 < count_le I (Suc k)
            then count_le I (Suc k) else cdfMin (cdf_loop I k))"
    and "minValue (cdf_loop I (Suc k)) =
           (if count_le I (Suc k) < cdfMin (cdf_loop I k) \<and> 0 < count_le I (Suc k)
            then Suc k else minValue (cdf_loop I k))"
  using cdf_loop_c [OF assms, of k]
  by (simp_all add: cdf_loop_Suc cdf_step_def Let_def)

lemma cdf_loop_Suc_max:
  assumes "length I < UINT_MAX"
  shows "cdfMax (cdf_loop I (Suc k)) =
           (if cdfMax (cdf_loop I k) < count_le I (Suc k)
            then count_le I (Suc k) else cdfMax (cdf_loop I k))"
    and "maxValue (cdf_loop I (Suc k)) =
           (if cdfMax (cdf_loop I k) < count_le I (Suc k)
            then Suc k else maxValue (cdf_loop I k))"
  using cdf_loop_c [OF assms, of k]
  by (simp_all add: cdf_loop_Suc cdf_step_def Let_def)

lemma count_le_0_below: "count_le I k = 0 \<Longrightarrow> j \<le> k \<Longrightarrow> count_le I j = 0"
  using count_le_mono [of j k I] by simp

lemma cdf_loop_min:
  assumes "length I < UINT_MAX"
  shows "if k = 0 \<or> count_le I k = 0
         then cdfMin (cdf_loop I k) = UINT_MAX \<and> minValue (cdf_loop I k) = UINT_MAX
         else 1 \<le> minValue (cdf_loop I k) \<and> minValue (cdf_loop I k) \<le> k \<and>
              cdfMin (cdf_loop I k) = count_le I (minValue (cdf_loop I k)) \<and>
              0 < cdfMin (cdf_loop I k) \<and>
              (\<forall>j. 1 \<le> j \<and> j < minValue (cdf_loop I k) \<longrightarrow> count_le I j = 0)"
proof (induction k)
  case 0
  show ?case by (simp add: cdf_loop_0)
next
  case (Suc k)
  let ?c = "count_le I (Suc k)"
  have c_lt: "?c < UINT_MAX"
    using count_le_length [of I "Suc k"] assms by simp
  have mono: "count_le I k \<le> ?c"
    by (rule count_le_mono) simp
  show ?case
  proof (cases "?c = 0")
    case True
    then have "count_le I k = 0" using mono by simp
    with True Suc show ?thesis
      by (simp add: cdf_loop_Suc_min [OF assms])
  next
    case pos: False
    show ?thesis
    proof (cases "k = 0 \<or> count_le I k = 0")
      case True
      then have old: "cdfMin (cdf_loop I k) = UINT_MAX" "minValue (cdf_loop I k) = UINT_MAX"
        using Suc by simp_all
      have below: "\<forall>j. 1 \<le> j \<and> j < Suc k \<longrightarrow> count_le I j = 0"
        using True count_le_0_below [of I k] by auto
      show ?thesis
        using pos c_lt old below by (simp add: cdf_loop_Suc_min [OF assms])
    next
      case False
      then have old: "1 \<le> minValue (cdf_loop I k)" "minValue (cdf_loop I k) \<le> k"
        "cdfMin (cdf_loop I k) = count_le I (minValue (cdf_loop I k))"
        "0 < cdfMin (cdf_loop I k)"
        "\<forall>j. 1 \<le> j \<and> j < minValue (cdf_loop I k) \<longrightarrow> count_le I j = 0"
        using Suc by simp_all
      have "cdfMin (cdf_loop I k) \<le> ?c"
        using old(2,3) count_le_mono [of "minValue (cdf_loop I k)" "Suc k" I] by simp
      then show ?thesis
        using pos old by (simp add: cdf_loop_Suc_min [OF assms])
    qed
  qed
qed

lemma cdf_loop_max:
  assumes "length I < UINT_MAX"
  shows "if k = 0 \<or> count_le I k = 0
         then cdfMax (cdf_loop I k) = 0 \<and> maxValue (cdf_loop I k) = 0
         else 1 \<le> maxValue (cdf_loop I k) \<and> maxValue (cdf_loop I k) \<le> k \<and>
              cdfMax (cdf_loop I k) = count_le I k \<and>
              count_le I (maxValue (cdf_loop I k)) = count_le I k \<and>
              (\<forall>j. 1 \<le> j \<and> j < maxValue (cdf_loop I k) \<longrightarrow> count_le I j < count_le I k)"
proof (induction k)
  case 0
  show ?case by (simp add: cdf_loop_0)
next
  case (Suc k)
  let ?c = "count_le I (Suc k)"
  have mono: "count_le I k \<le> ?c"
    by (rule count_le_mono) simp
  show ?case
  proof (cases "?c = 0")
    case True
    then have "count_le I k = 0" using mono by simp
    with True Suc show ?thesis
      by (simp add: cdf_loop_Suc_max [OF assms])
  next
    case pos: False
    show ?thesis
    proof (cases "k = 0 \<or> count_le I k = 0")
      case True
      then have old: "cdfMax (cdf_loop I k) = 0" "maxValue (cdf_loop I k) = 0"
        using Suc by simp_all
      have below: "\<forall>j. 1 \<le> j \<and> j < Suc k \<longrightarrow> count_le I j < ?c"
        using True pos count_le_0_below [of I k] by auto
      show ?thesis
        using pos old below by (simp add: cdf_loop_Suc_max [OF assms])
    next
      case False
      then have old: "1 \<le> maxValue (cdf_loop I k)" "maxValue (cdf_loop I k) \<le> k"
        "cdfMax (cdf_loop I k) = count_le I k"
        "count_le I (maxValue (cdf_loop I k)) = count_le I k"
        "\<forall>j. 1 \<le> j \<and> j < maxValue (cdf_loop I k) \<longrightarrow> count_le I j < count_le I k"
        using Suc by simp_all
      show ?thesis
      proof (cases "count_le I k < ?c")
        case True
        have "\<forall>j. 1 \<le> j \<and> j < Suc k \<longrightarrow> count_le I j < ?c"
        proof (intro allI impI)
          fix j assume "1 \<le> j \<and> j < Suc k"
          then have "count_le I j \<le> count_le I k"
            by (intro count_le_mono) simp
          with True show "count_le I j < ?c" by simp
        qed
        with True pos old show ?thesis
          by (simp add: cdf_loop_Suc_max [OF assms])
      next
        case False
        then have "?c = count_le I k" using mono by simp
        with pos old show ?thesis
          by (simp add: cdf_loop_Suc_max [OF assms])
      qed
    qed
  qed
qed

lemma wrap_sub_small:
  fixes a b M :: nat
  assumes "b \<le> a" and "a < M"
  shows "(a + M - b mod M) mod M = a - b"
proof -
  have "b mod M = b" using assms by simp
  moreover have "a + M - b = (a - b) + M" using assms by simp
  moreover have "(a - b) mod M = a - b" using assms by simp
  ultimately show ?thesis by (simp only: mod_add_self2)
qed

lemma uint_sub_small: "b \<le> a \<Longrightarrow> a < 2 ^ 32 \<Longrightarrow> uint_sub a b = a - b"
  unfolding uint_sub_def by (rule wrap_sub_small)

lemma equalizeHistogram_lut_closed:
  "equalizeHistogram_lut s n xs t =
     (if xs \<noteq> [] \<and> uint_sub n (cdfMin s) = 0 then Inl NonFiniteToInt
      else Inr (\<lambda>x. if x \<in> set xs then Some (equalize_entry s n x) else t x))"
proof (induction xs arbitrary: t)
  case Nil
  show ?case by simp
next
  case (Cons x xs)
  show ?case
    by (cases "xs = []") (auto simp: Cons equalize_entry_def fun_eq_iff)
qed

lemma equalizeHistogram_cdf_loop:
  "I \<noteq> [] \<Longrightarrow>
   equalizeHistogram I =
     (case equalizeHistogram_lut (cdf_loop I 255) (length I)
             [minValue (cdf_loop I 255)..<maxValue (cdf_loop I 255) + 1] Map.empty of
        Inl u \<Rightarrow> Undefined u
      | Inr t \<Rightarrow> performLut I t)"
proof -
  have "[1..<256] = [1..<Suc 255]" by simp
  then show "I \<noteq> [] \<Longrightarrow> ?thesis"
    unfolding equalizeHistogram_def cdf_loop_def Let_def by (simp only: length_0_conv if_False)
qed

lemma performLut_uninitialised:
  "p \<in> set I \<Longrightarrow> t (unat p) = None \<Longrightarrow> performLut I t = Undefined UninitialisedLutEntry"
proof (induction I)
  case Nil
  then show ?case by simp
next
  case (Cons q qs)
  show ?case
  proof (cases "t (unat q)")
    case None
    then show ?thesis by simp
  next
    case (Some v)
    with Cons.prems have "p \<in> set qs" by auto
    then have "performLut qs t = Undefined UninitialisedLutEntry"
      using Cons by simp
    with Some show ?thesis by simp
  qed
qed

text \<open>The locals after the loop, on an image that holds a pixel.\<close>

lemma cdf_loop_final:
  assumes "I \<noteq> []" and "length I < UINT_MAX"
  shows "1 \<le> minValue (cdf_loop I 255)" and "minValue (cdf_loop I 255) \<le> 255"
    and "cdfMin (cdf_loop I 255) = count_le I (minValue (cdf_loop I 255))"
    and "0 < cdfMin (cdf_loop I 255)"
    and "\<And>j. 1 \<le> j \<Longrightarrow> j < minValue (cdf_loop I 255) \<Longrightarrow> count_le I j = 0"
    and "1 \<le> maxValue (cdf_loop I 255)" and "maxValue (cdf_loop I 255) \<le> 255"
    and "count_le I (maxValue (cdf_loop I 255)) = length I"
    and "\<And>j. 1 \<le> j \<Longrightarrow> j < maxValue (cdf_loop I 255) \<Longrightarrow> count_le I j < length I"
proof -
  have n: "count_le I 255 = length I" by (simp add: count_le_255)
  then have c: "\<not> ((255::nat) = 0 \<or> count_le I 255 = 0)" using assms(1) by simp
  have mn: "1 \<le> minValue (cdf_loop I 255) \<and> minValue (cdf_loop I 255) \<le> 255 \<and>
              cdfMin (cdf_loop I 255) = count_le I (minValue (cdf_loop I 255)) \<and>
              0 < cdfMin (cdf_loop I 255) \<and>
              (\<forall>j. 1 \<le> j \<and> j < minValue (cdf_loop I 255) \<longrightarrow> count_le I j = 0)"
    using cdf_loop_min [OF assms(2), of 255] unfolding if_not_P [OF c] .
  have mx: "1 \<le> maxValue (cdf_loop I 255) \<and> maxValue (cdf_loop I 255) \<le> 255 \<and>
              cdfMax (cdf_loop I 255) = count_le I 255 \<and>
              count_le I (maxValue (cdf_loop I 255)) = count_le I 255 \<and>
              (\<forall>j. 1 \<le> j \<and> j < maxValue (cdf_loop I 255) \<longrightarrow> count_le I j < count_le I 255)"
    using cdf_loop_max [OF assms(2), of 255] unfolding if_not_P [OF c] .
  from mn show "1 \<le> minValue (cdf_loop I 255)" and "minValue (cdf_loop I 255) \<le> 255"
    and "cdfMin (cdf_loop I 255) = count_le I (minValue (cdf_loop I 255))"
    and "0 < cdfMin (cdf_loop I 255)"
    and "\<And>j. 1 \<le> j \<Longrightarrow> j < minValue (cdf_loop I 255) \<Longrightarrow> count_le I j = 0"
    by blast+
  from mx n show "1 \<le> maxValue (cdf_loop I 255)" and "maxValue (cdf_loop I 255) \<le> 255"
    and "count_le I (maxValue (cdf_loop I 255)) = length I"
    and "\<And>j. 1 \<le> j \<Longrightarrow> j < maxValue (cdf_loop I 255) \<Longrightarrow> count_le I j < length I"
    by simp_all
qed

lemma count_le_pos: "q \<in> set I \<Longrightarrow> unat q \<le> k \<Longrightarrow> 0 < count_le I k"
  by (auto simp: count_le_def filter_empty_conv)

lemma count_le_pos_D: "0 < count_le I k \<Longrightarrow> \<exists>q\<in>set I. unat q \<le> k"
  by (auto simp: count_le_def filter_empty_conv)

lemma count_le_less: "q \<in> set I \<Longrightarrow> k < unat q \<Longrightarrow> count_le I k < length I"
  unfolding count_le_def by (rule length_filter_less) (simp_all add: not_le)

lemma count_le_full: "(\<And>q. q \<in> set I \<Longrightarrow> unat q \<le> k) \<Longrightarrow> count_le I k = length I"
  by (simp add: count_le_def)

lemma count_le_full_D: "count_le I k = length I \<Longrightarrow> q \<in> set I \<Longrightarrow> unat q \<le> k"
  using count_le_less [of q I k] by (cases "unat q \<le> k") simp_all

lemma length_uint: "n < UINT_MAX \<Longrightarrow> n < 2 ^ 32"
  by (simp add: UINT_MAX_def)

section \<open>Histogram equalization of a constant image\<close>

text \<open>
  C4 asks that a non-empty grayscale image all of whose pixels hold the same value is left
  unchanged. The code does not do that. For every such image, of fewer than \<open>2 ^ 32 - 1\<close>
  pixels: \<^verbatim>\<open>cdfMin\<close> is the number of pixels, the loop that builds the table runs, and
  its first iteration divides \<^verbatim>\<open>0\<close> by \<^verbatim>\<open>(double) 0\<close> and converts the NaN to an
  \<^verbatim>\<open>int\<close>. The call does not determine the image.
\<close>

theorem equalizeHistogram_constant:
  assumes "I \<noteq> []" and "length I < UINT_MAX" and "\<forall>p \<in> set I. p = v"
  shows "equalizeHistogram I = Undefined NonFiniteToInt"
proof -
  let ?s = "cdf_loop I 255"
  note fin = cdf_loop_final [OF assms(1,2)]
  have v: "v \<in> set I" using assms(1,3) by (cases I) auto
  have cnt: "count_le I j = (if unat v \<le> j then length I else 0)" for j
  proof (cases "unat v \<le> j")
    case True
    have "count_le I j = length I"
      by (rule count_le_full) (use assms(3) True in auto)
    with True show ?thesis by simp
  next
    case False
    have "\<not> 0 < count_le I j"
    proof
      assume "0 < count_le I j"
      then obtain q where "q \<in> set I" and "unat q \<le> j"
        using count_le_pos_D by blast
      with assms(3) False show False by simp
    qed
    with False show ?thesis by simp
  qed
  have "cdfMin ?s = length I"
    using fin(3,4) cnt [of "minValue ?s"] by (simp split: if_splits)
  then have den: "uint_sub (length I) (cdfMin ?s) = 0"
    using uint_sub_small [of "length I" "length I"] length_uint [OF assms(2)] by simp
  have "minValue ?s \<le> maxValue ?s"
  proof (rule ccontr)
    assume "\<not> minValue ?s \<le> maxValue ?s"
    then have "count_le I (maxValue ?s) = 0"
      using fin(5) [of "maxValue ?s"] fin(6) by simp
    with fin(8) assms(1) show False by simp
  qed
  then have ne: "[minValue ?s..<maxValue ?s + 1] \<noteq> []" by simp
  show ?thesis
    using den ne
    by (simp add: equalizeHistogram_cdf_loop [OF assms(1)] equalizeHistogram_lut_closed)
qed

theorem equalizeHistogram_constant_witness:
  "equalizeHistogram [77, 77, 77] = Undefined NonFiniteToInt"
  using equalizeHistogram_constant [of "[77, 77, 77]" 77]
  by (simp add: UINT_MAX_def)

section \<open>Histogram equalization of an image that holds the pixel 0\<close>

text \<open>
  C3 asks that \<^verbatim>\<open>cdfMin\<close> and \<^verbatim>\<open>minValue\<close> are taken over all 256 bins and that the
  table is applied to every pixel. The loop of the code starts at bin 1 and never tests
  bin 0. For every image of fewer than \<open>2 ^ 32 - 1\<close> pixels that holds the pixel 0 and a
  pixel greater than 1: \<^verbatim>\<open>minValue\<close> is 1, the table has no entry at index 0, and the
  pixel 0 selects an entry that was never written. The call does not determine the image.
\<close>

theorem equalizeHistogram_zero_pixel:
  assumes "length I < UINT_MAX" and "0 \<in> set I" and "p \<in> set I" and "1 < unat p"
  shows "equalizeHistogram I = Undefined UninitialisedLutEntry"
proof -
  let ?s = "cdf_loop I 255"
  have ne: "I \<noteq> []" using assms(2) by auto
  note fin = cdf_loop_final [OF ne assms(1)]
  have pos1: "0 < count_le I 1"
    using count_le_pos [OF assms(2), of 1] by simp
  have m: "minValue ?s = 1"
  proof (rule ccontr)
    assume "minValue ?s \<noteq> 1"
    with fin(1) have "1 < minValue ?s" by simp
    then have "count_le I 1 = 0" using fin(5) [of 1] by simp
    with pos1 show False by simp
  qed
  have lt: "count_le I 1 < length I"
    using count_le_less [OF assms(3), of 1] assms(4) by simp
  have "uint_sub (length I) (cdfMin ?s) = length I - count_le I 1"
    using fin(3) m lt length_uint [OF assms(1)] by (simp add: uint_sub_small)
  then have den: "uint_sub (length I) (cdfMin ?s) \<noteq> 0"
    using lt by simp
  have "equalizeHistogram I =
          performLut I (\<lambda>x. if x \<in> set [1..<maxValue ?s + 1]
                             then Some (equalize_entry ?s (length I) x) else None)"
    using den m
    by (simp add: equalizeHistogram_cdf_loop [OF ne] equalizeHistogram_lut_closed)
  also have "\<dots> = Undefined UninitialisedLutEntry"
    by (rule performLut_uninitialised [OF assms(2)]) simp
  finally show ?thesis .
qed

theorem equalizeHistogram_zero_pixel_witness:
  "equalizeHistogram [0, 255] = Undefined UninitialisedLutEntry"
  using equalizeHistogram_zero_pixel [of "[0, 255]" 255]
  by (simp add: UINT_MAX_def)

section \<open>Histogram equalization of an image without the pixel 0 and with two pixel values\<close>

text \<open>
  On an image of fewer than \<open>2 ^ 32 - 1\<close> pixels, without the pixel 0 and with at least
  two pixel values, the call returns, and each pixel \<open>p\<close> becomes
  \<open>round ((cdf[p] - cdfMin) / (nbPixels - cdfMin) * 255)\<close>, where \<open>cdf[p]\<close> is the number of
  pixels of value at most \<open>p\<close> and \<open>cdfMin\<close> is \<open>cdf\<close> at the minimum pixel value. The
  quotient and the product are those of the reals; it is used below on the image
  \<open>{10, 200}\<close>, where they are \<open>0 / 1 * 255\<close> and \<open>1 / 1 * 255\<close> and exact in doubles.
\<close>

lemma equalizeHistogram_formula:
  assumes len: "length I < UINT_MAX" and nz: "0 \<notin> set I" and ne: "I \<noteq> []"
    and two: "Min (set I) < Max (set I)"
  shows "equalizeHistogram I =
           Returns (map (\<lambda>p. word_of_int (vp_round
                      (real (count_le I (unat p) - count_le I (unat (Min (set I)))) /
                       real (length I - count_le I (unat (Min (set I)))) * 255))) I)"
proof -
  let ?s = "cdf_loop I 255"
  let ?mn = "Min (set I)"
  let ?mx = "Max (set I)"
  let ?n = "length I"
  note fin = cdf_loop_final [OF ne len]
  have mn_in: "?mn \<in> set I" and mx_in: "?mx \<in> set I"
    using ne by simp_all
  have "?mn \<noteq> 0" using mn_in nz by metis
  then have mn1: "1 \<le> unat ?mn"
    by (simp add: Suc_le_eq unat_gt_0)
  have lt_nat: "unat ?mn < unat ?mx"
    using two by (simp add: word_less_nat_alt)
  have m: "minValue ?s = unat ?mn"
  proof (rule antisym)
    show "minValue ?s \<le> unat ?mn"
    proof (rule ccontr)
      assume "\<not> minValue ?s \<le> unat ?mn"
      then have "count_le I (unat ?mn) = 0"
        using fin(5) [of "unat ?mn"] mn1 by simp
      moreover have "0 < count_le I (unat ?mn)"
        by (rule count_le_pos [OF mn_in]) simp
      ultimately show False by simp
    qed
    have "0 < count_le I (minValue ?s)" using fin(3,4) by simp
    then obtain q where q: "q \<in> set I" "unat q \<le> minValue ?s"
      using count_le_pos_D by blast
    then have "?mn \<le> q" by simp
    then have "unat ?mn \<le> unat q" by (simp add: word_le_nat_alt)
    with q show "unat ?mn \<le> minValue ?s" by simp
  qed
  have full: "count_le I (unat ?mx) = ?n"
  proof (rule count_le_full)
    fix q assume "q \<in> set I"
    then have "q \<le> ?mx" by simp
    then show "unat q \<le> unat ?mx" by (simp add: word_le_nat_alt)
  qed
  have M: "maxValue ?s = unat ?mx"
  proof (rule antisym)
    show "maxValue ?s \<le> unat ?mx"
    proof (rule ccontr)
      assume "\<not> maxValue ?s \<le> unat ?mx"
      then have "count_le I (unat ?mx) < ?n"
        using fin(9) [of "unat ?mx"] mn1 lt_nat by simp
      with full show False by simp
    qed
    show "unat ?mx \<le> maxValue ?s"
      using count_le_full_D [OF fin(8) mx_in] .
  qed
  have cmin: "cdfMin ?s = count_le I (unat ?mn)"
    using fin(3) m by simp
  have lt: "count_le I (unat ?mn) < ?n"
    by (rule count_le_less [OF mx_in lt_nat])
  have n32: "?n < 2 ^ 32" by (rule length_uint [OF len])
  have den: "uint_sub ?n (cdfMin ?s) = ?n - count_le I (unat ?mn)"
    using lt n32 by (simp add: cmin uint_sub_small)
  then have den0: "uint_sub ?n (cdfMin ?s) \<noteq> 0"
    using lt by simp
  have "equalizeHistogram I =
          performLut I (\<lambda>x. if x \<in> set [unat ?mn..<unat ?mx + 1]
                             then Some (equalize_entry ?s ?n x) else None)"
    using den0 by (simp add: equalizeHistogram_cdf_loop [OF ne] equalizeHistogram_lut_closed m M)
  also have "\<dots> = Returns (map (\<lambda>p. word_of_int (vp_round
                      (real (count_le I (unat p) - count_le I (unat ?mn)) /
                       real (?n - count_le I (unat ?mn)) * 255))) I)"
  proof (rule performLut_map)
    fix p assume p: "p \<in> set I"
    then have "?mn \<le> p" and "p \<le> ?mx" by simp_all
    then have rng: "unat ?mn \<le> unat p" "unat p \<le> unat ?mx"
      by (simp_all add: word_le_nat_alt)
    have "unat p \<le> 255" using unat_uchar_less [of p] by simp
    then have c: "cdf ?s (unat p) = count_le I (unat p)"
      by (rule cdf_loop_cdf [OF len])
    have "count_le I (unat ?mn) \<le> count_le I (unat p)"
      by (rule count_le_mono [OF rng(1)])
    moreover have "count_le I (unat p) < 2 ^ 32"
      using count_le_length [of I "unat p"] n32 by simp
    ultimately have num: "uint_sub (cdf ?s (unat p)) (cdfMin ?s) =
                            count_le I (unat p) - count_le I (unat ?mn)"
      by (simp add: c cmin uint_sub_small)
    show "(if unat p \<in> set [unat ?mn..<unat ?mx + 1]
           then Some (equalize_entry ?s ?n (unat p)) else None) =
          Some (word_of_int (vp_round
                      (real (count_le I (unat p) - count_le I (unat ?mn)) /
                       real (?n - count_le I (unat ?mn)) * 255)))"
      using rng by (simp add: equalize_entry_def num den)
  qed
  finally show ?thesis .
qed

lemma equalizeHistogram_10_200: "equalizeHistogram [10, 200] = Returns [0, 255]"
proof -
  have "Min (set [10, 200 :: uchar]) = 10" and "Max (set [10, 200 :: uchar]) = 200"
    by simp_all
  then show ?thesis
    using equalizeHistogram_formula [of "[10, 200]"]
    by (simp add: UINT_MAX_def count_le_def vp_round_def)
qed

section \<open>Histogram equalization of a color image without HSV\<close>

lemma performLut_length: "performLut I t = Returns J \<Longrightarrow> length J = length I"
proof (induction I arbitrary: J)
  case Nil
  then show ?case by simp
next
  case (Cons p ps)
  then show ?case
    by (auto split: option.splits outcome.splits)
qed

lemma equalizeHistogram_length: "equalizeHistogram I = Returns J \<Longrightarrow> length J = length I"
proof (cases "I = []")
  case True
  then show "equalizeHistogram I = Returns J \<Longrightarrow> ?thesis"
    by (simp add: equalizeHistogram_def)
next
  case False
  assume "equalizeHistogram I = Returns J"
  then show ?thesis
    using performLut_length [of I _ J]
    by (auto simp: equalizeHistogram_cdf_loop [OF False] split: sum.splits)
qed

text \<open>
  C1, as the code has it. For every non-empty color image whose R, G and B planes the
  grayscale equalization maps to \<open>r\<close>, \<open>g\<close> and \<open>b\<close>, the call without HSV returns the
  image whose R, G and B planes are \<open>r\<close>, \<open>g\<close> and \<open>b\<close> and whose alpha plane is the alpha
  plane of the input: the alpha plane is split off and written back, and not equalized.
  The grayscale equalization maps no plane that holds the byte 0 or a single value to a
  result (C3, C4); about an image with such a plane nothing is stated here.
\<close>

theorem equalizeHistogram_RGBa_planes:
  assumes "I \<noteq> []"
    and "equalizeHistogram (map R I) = Returns r"
    and "equalizeHistogram (map G I) = Returns g"
    and "equalizeHistogram (map B I) = Returns b"
  shows "\<exists>J. equalizeHistogram_RGBa RGBaToHSV HSVToRGBa I False = Returns J \<and>
           map R J = r \<and> map G J = g \<and> map B J = b \<and> map A J = map A I"
proof -
  let ?J = "map (\<lambda>cpt. \<lparr>R = r ! cpt, G = g ! cpt, B = b ! cpt, A = map A I ! cpt\<rparr>) [0..<length I]"
  have len: "length r = length I" "length g = length I" "length b = length I"
    using assms(2-4) equalizeHistogram_length by fastforce+
  have ret: "equalizeHistogram_RGBa RGBaToHSV HSVToRGBa I False = Returns ?J"
    using assms by (simp add: equalizeHistogram_RGBa_def equalizeHistogram2_def Let_def)
  have "map R ?J = r"
    using len(1) by (intro nth_equalityI) simp_all
  moreover have "map G ?J = g"
    using len(2) by (intro nth_equalityI) simp_all
  moreover have "map B ?J = b"
    using len(3) by (intro nth_equalityI) simp_all
  moreover have "map A ?J = map A I"
    by (intro nth_equalityI) simp_all
  ultimately show ?thesis using ret by blast
qed

theorem equalizeHistogram_RGBa_planes_witness:
  "\<exists>J. equalizeHistogram_RGBa (\<lambda>I. ([], [], [])) (\<lambda>h s v I. I)
          [\<lparr>R = 10, G = 10, B = 10, A = 10\<rparr>, \<lparr>R = 200, G = 200, B = 200, A = 200\<rparr>] False = Returns J \<and>
       map R J = [0, 255] \<and> map G J = [0, 255] \<and> map B J = [0, 255] \<and> map A J = [10, 200]"
  using equalizeHistogram_RGBa_planes [of
      "[\<lparr>R = 10, G = 10, B = 10, A = 10\<rparr>, \<lparr>R = 200, G = 200, B = 200, A = 200\<rparr>]"
      "[0, 255]" "[0, 255]" "[0, 255]" "\<lambda>I. ([], [], [])" "\<lambda>h s v I. I"]
  by (simp add: equalizeHistogram_10_200)

text \<open>
  The claim as the spec states it fails: on the image of the two pixels (10,10,10,10) and
  (200,200,200,200) the alpha plane of the result is \<open>[10, 200]\<close>, and the grayscale
  equalization of the alpha plane \<open>[10, 200]\<close> is \<open>[0, 255]\<close>.
\<close>

theorem equalizeHistogram_RGBa_alpha_not_equalized:
  "equalizeHistogram_RGBa (\<lambda>I. ([], [], [])) (\<lambda>h s v I. I)
     [\<lparr>R = 10, G = 10, B = 10, A = 10\<rparr>, \<lparr>R = 200, G = 200, B = 200, A = 200\<rparr>] False
   = Returns [\<lparr>R = 0, G = 0, B = 0, A = 10\<rparr>, \<lparr>R = 255, G = 255, B = 255, A = 200\<rparr>] \<and>
   equalizeHistogram (map A [\<lparr>R = 10, G = 10, B = 10, A = 10\<rparr>, \<lparr>R = 200, G = 200, B = 200, A = 200\<rparr>])
   = Returns [0, 255]"
  by (simp add: equalizeHistogram_RGBa_def equalizeHistogram2_def equalizeHistogram_10_200
      upt_conv_Cons)

end
